theory Spec2Isabelle
  imports Complex_Main "HOL-Library.Word" "HOL-Library.Log_Nat"
begin

section \<open>The main controller's fall detection (main_controller.ino)\<close>

text \<open>
  The sketch keeps the detector as global variables and runs it once per pass of
  \<open>loop()\<close>. A pass reads the accelerometer, computes the total acceleration
  \<open>totalAcc\<close> (in g) and the clock \<open>now = millis()\<close>, and then runs four blocks in
  this order: movement tracking, the gated fall detection, the fall event, and the
  inactivity alert. The model takes \<open>totalAcc\<close> and \<open>now\<close> as the inputs of a pass.

  \<^item> \<open>unsigned long\<close> is 32 bits wide on the ESP32: timers are \<open>32 word\<close>, and
    \<open>now - lastFallTime\<close> wraps around as the C subtraction does.
  \<^item> \<open>float\<close> values are modelled by the real numbers they denote and the
    comparisons by the order of the reals. The one float operation of the block,
    \<open>totalAcc - lastAcc\<close>, is the real difference rounded to binary32 (\<open>fsub32\<close>
    below). No sample is NaN: \<open>totalAcc\<close> is the norm of three readings of at most
    2 g each.
  \<^item> \<open>startBuzzer\<close> only writes the buzzer's own variables and pin, which the
    detection never reads, and \<open>lastFallTimeStr\<close> is only read by the web handler;
    a pass of the model reports the two calls \<open>startBuzzer(2)\<close> (fall event) and
    \<open>startBuzzer(5)\<close> (inactivity alert) as two flags instead.
\<close>

subsection \<open>The binary32 subtraction\<close>

text \<open>
  \<open>rne\<close> rounds a real to the nearest integer, a tie to the even one.
\<close>

definition rne :: "real \<Rightarrow> int" where
  "rne z = (let f = \<lfloor>z\<rfloor>; d = z - of_int f
            in if d < 1 / 2 then f else if 1 / 2 < d then f + 1
               else if even f then f else f + 1)"

text \<open>
  Every finite binary32 is a multiple of \<open>2 ^ -149\<close> with at most 24 significant bits.
  \<open>round24\<close> rounds a magnitude given in that unit: a magnitude of bit length \<open>b\<close>
  above 24 is rounded to a multiple of \<open>2 ^ (b - 24)\<close>, a smaller one (the subnormal
  range and the first binade) to an integer.
\<close>

definition round24 :: "real \<Rightarrow> real" where
  "round24 m = (let k = nat (bitlen \<lfloor>m\<rfloor> - 24) in of_int (rne (m / 2 ^ k)) * 2 ^ k)"

text \<open>
  Rounding to the nearest binary32, ties to even. A result beyond the largest finite
  binary32 would be an infinity in the program; it stays a large real here, which
  compares with 0.05 in the same way.
\<close>

definition round32 :: "real \<Rightarrow> real" where
  "round32 x = sgn x * round24 (\<bar>x\<bar> * 2 ^ 149) / 2 ^ 149"

definition fsub32 :: "real \<Rightarrow> real \<Rightarrow> real" where
  "fsub32 a b = round32 (a - b)"

text \<open>The literal \<open>0.05\<close> of line 122 is a \<open>double\<close>: the binary64 nearest to 0.05.\<close>

definition double_0_05 :: real where
  "double_0_05 = 3602879701896397 / 2 ^ 56"

subsection \<open>The globals and the blocks of the loop\<close>

definition FALL_LOW_G :: real where
  "FALL_LOW_G = 0.3"

definition FALL_HIGH_G :: real where
  "FALL_HIGH_G = 2.8"

definition WINDOW_MS :: "32 word" where
  "WINDOW_MS = 300"

definition COOLDOWN_MS :: "32 word" where
  "COOLDOWN_MS = 1000"

record controller =
  lastLowTime :: "32 word"
  lastFallTime :: "32 word"
  lastMovementTime :: "32 word"
  lastBuzzToggle :: "32 word"
  inLowWindow :: bool
  fallDetected :: bool
  inactivityTriggered :: bool
  lastAcc :: real

text \<open>The initialisers of the globals and of the static \<open>lastAcc\<close>.\<close>

definition boot :: controller where
  "boot = \<lparr> lastLowTime = 0, lastFallTime = 0, lastMovementTime = 0,
            lastBuzzToggle = 0, inLowWindow = False, fallDetected = False,
            inactivityTriggered = False, lastAcc = 1.0 \<rparr>"

text \<open>Lines 121 to 126: the float difference to the previous sample is widened to
  \<open>double\<close> by \<open>fabs\<close> and compared with the double 0.05; more is movement.\<close>

definition track_movement :: "real \<Rightarrow> 32 word \<Rightarrow> controller \<Rightarrow> controller" where
  "track_movement totalAcc now s =
     (let s1 = (if \<bar>fsub32 totalAcc (lastAcc s)\<bar> > double_0_05
                then s\<lparr>lastMovementTime := now, inactivityTriggered := False\<rparr>
                else s)
      in s1\<lparr>lastAcc := totalAcc\<rparr>)"

text \<open>Lines 129 to 141: the detection, skipped while the cooldown gate is closed.\<close>

definition fall_detection :: "real \<Rightarrow> 32 word \<Rightarrow> controller \<Rightarrow> controller" where
  "fall_detection totalAcc now s =
     (if now - lastFallTime s > COOLDOWN_MS then
        (if \<not> inLowWindow s \<and> totalAcc < FALL_LOW_G then
           s\<lparr>inLowWindow := True, lastLowTime := now\<rparr>
         else if inLowWindow s then
           (let s1 = (if totalAcc > FALL_HIGH_G
                      then s\<lparr>fallDetected := True, inLowWindow := False\<rparr>
                      else s)
            in if now - lastLowTime s1 > WINDOW_MS then s1\<lparr>inLowWindow := False\<rparr> else s1)
         else s)
      else s)"

text \<open>Lines 144 to 159: the fall event; the flag says that the block ran.\<close>

definition fall_event :: "32 word \<Rightarrow> controller \<Rightarrow> controller \<times> bool" where
  "fall_event now s =
     (if fallDetected s then
        (s\<lparr>lastFallTime := now, lastMovementTime := now, fallDetected := False,
           inactivityTriggered := True, lastBuzzToggle := now\<rparr>, True)
      else (s, False))"

text \<open>Lines 162 to 167: the inactivity alert; the flag says that the buzzer was started.\<close>

definition inactivity_alert :: "32 word \<Rightarrow> controller \<Rightarrow> controller \<times> bool" where
  "inactivity_alert now s =
     (if inactivityTriggered s \<and> now - lastMovementTime s > 10000 then
        (if now - lastBuzzToggle s > 10000 then (s\<lparr>lastBuzzToggle := now\<rparr>, True)
         else (s, False))
      else (s, False))"

text \<open>
  One pass of \<open>loop()\<close> from line 119 on. The result is the new state, whether the fall
  event ran in this pass (what the specification calls \<open>update()\<close> returning true),
  and whether the inactivity alert sounded.
\<close>

definition loop :: "real \<Rightarrow> 32 word \<Rightarrow> controller \<Rightarrow> controller \<times> bool \<times> bool" where
  "loop totalAcc now s =
     (let s1 = track_movement totalAcc now s;
          s2 = fall_detection totalAcc now s1;
          (s3, fell) = fall_event now s2;
          (s4, alerted) = inactivity_alert now s3
      in (s4, fell, alerted))"

text \<open>A trace is the list of the inputs of successive passes.\<close>

type_synonym sample = "real \<times> 32 word"

primrec exec :: "controller \<Rightarrow> sample list \<Rightarrow> controller" where
  "exec s [] = s"
| "exec s (x # xs) = exec (fst (loop (fst x) (snd x) s)) xs"

primrec falls :: "controller \<Rightarrow> sample list \<Rightarrow> bool list" where
  "falls s [] = []"
| "falls s (x # xs) =
     fst (snd (loop (fst x) (snd x) s)) # falls (fst (loop (fst x) (snd x) s)) xs"

primrec alerts :: "controller \<Rightarrow> sample list \<Rightarrow> bool list" where
  "alerts s [] = []"
| "alerts s (x # xs) =
     snd (snd (loop (fst x) (snd x) s)) # alerts (fst (loop (fst x) (snd x) s)) xs"


section \<open>The traces of the specification's scenarios\<close>

text \<open>
  Scenario A: a sample at rest, two samples in free fall 50 ms apart, and the impact.
  \<open>scenario_A_at d\<close> is the same trace started \<open>d\<close> milliseconds after boot.
\<close>

definition scenario_A_at :: "32 word \<Rightarrow> sample list" where
  "scenario_A_at d = [(1.0, d), (0.2, d + 50), (0.25, d + 100), (3.0, d + 150)]"

definition scenario_A :: "sample list" where
  "scenario_A = scenario_A_at 0"

text \<open>A fall at 2100 ms followed by a second dip and two more impacts.\<close>

definition two_impacts :: "sample list" where
  "two_impacts = [(0.2, 2000), (3.0, 2100), (0.2, 2500), (3.0, 2600), (3.0, 3200)]"

text \<open>Two complete falls, 1200 ms apart.\<close>

definition two_falls :: "sample list" where
  "two_falls = [(0.2, 2000), (3.0, 2100), (0.2, 3200), (3.0, 3300)]"

text \<open>Scenario B with an impact on the first sample after the window: the dip is at
  2050 ms, no sample up to 2350 ms is high, and the 3.0 g sample comes at 2400 ms.\<close>

definition late_impact :: "sample list" where
  "late_impact = [(1.0, 2000), (0.2, 2050), (1.0, 2100), (1.0, 2350), (3.0, 2400)]"





section \<open>The inactivity alert as the specification words it\<close>



section \<open>The FallDetector class (fall_detection.h)\<close>

text \<open>
  The header declares the states, the event record and the class with its private
  members; the member functions are defined in no file of the repository.
\<close>

datatype FallDetectionState =
  FALL_STATE_NORMAL | FALL_STATE_LOW_G | FALL_STATE_HIGH_G | FALL_STATE_DETECTED
  | FALL_STATE_COOLDOWN

record FallEvent =
  timestamp :: "32 word"
  maxAcceleration :: real
  minAcceleration :: real
  duration :: "16 word"
  isEmergency :: bool

text \<open>
  The private members of the class. \<open>lastFallTime_d\<close> and \<open>lastMovementTime_d\<close> are the
  members \<open>lastFallTime\<close> and \<open>lastMovementTime\<close>, renamed apart from the globals of
  the sketch. The last two fields are not in the header: they are the \<open>triggered\<close>
  flag and the \<open>lastAlertTimestamp\<close> of the specification's InactivityTracker.
\<close>

record FallDetector =
  currentState :: FallDetectionState
  lastFall :: FallEvent
  lowGStartTime :: "32 word"
  lastFallTime_d :: "32 word"
  lastMovementTime_d :: "32 word"
  lowGThreshold :: real
  highGThreshold :: real
  detectionWindow :: "32 word"
  cooldownPeriod :: "32 word"
  accelHistory :: "real list"
  accelHistoryIndex :: "8 word"
  accelHistoryCount :: "8 word"
  triggered :: bool
  lastAlertTimestamp :: "32 word"

text \<open>Modelled from the spec: the value that \<open>getLastFall()\<close> returns when no fall has
  been recorded ("zero-valued/sentinel if none yet"); no source file defines it.\<close>

definition no_fall :: FallEvent where
  "no_fall = \<lparr> timestamp = 0, maxAcceleration = 0, minAcceleration = 0, duration = 0,
               isEmergency = False \<rparr>"

text \<open>Modelled from the spec: \<open>FallDetector::reset()\<close>, declared in fall_detection.h and
  defined in no source file. The specification: "clears state machine to Normal, clears
  history buffer, clears last-fall record, clears inactivity tracker". The thresholds
  and timings are configuration and stay.\<close>

definition reset :: "FallDetector \<Rightarrow> FallDetector" where
  "reset d = d\<lparr> currentState := FALL_STATE_NORMAL, lastFall := no_fall,
               lowGStartTime := 0, lastFallTime_d := 0, lastMovementTime_d := 0,
               accelHistory := replicate 50 0, accelHistoryIndex := 0,
               accelHistoryCount := 0, triggered := False, lastAlertTimestamp := 0 \<rparr>"

text \<open>Modelled from the spec: \<open>FallDetector::getCurrentState()\<close>, declared only;
  "introspection, no side effects".\<close>

definition getCurrentState :: "FallDetector \<Rightarrow> FallDetectionState" where
  "getCurrentState d = currentState d"

text \<open>Modelled from the spec: \<open>FallDetector::getLastFall()\<close>, declared only; "returns
  the most recently recorded fall".\<close>

definition getLastFall :: "FallDetector \<Rightarrow> FallEvent" where
  "getLastFall d = lastFall d"

text \<open>Modelled from the spec: \<open>FallDetector::isInCooldown()\<close>, declared only; the
  detector is in cooldown when its state machine is in the state Cooldown.\<close>

definition isInCooldown :: "FallDetector \<Rightarrow> bool" where
  "isInCooldown d \<longleftrightarrow> currentState d = FALL_STATE_COOLDOWN"

section \<open>Rounding to binary32\<close>

lemma rne_upper: "z \<le> of_int j \<Longrightarrow> rne z \<le> j"
proof -
  assume a: "z \<le> of_int j"
  have f: "\<lfloor>z\<rfloor> \<le> j" using a by (simp add: floor_le_iff)
  show ?thesis
  proof (cases "\<lfloor>z\<rfloor> = j")
    case True
    then have "z - of_int \<lfloor>z\<rfloor> \<le> 0" using a by simp
    then show ?thesis using True by (simp add: rne_def Let_def)
  next
    case False
    then have "\<lfloor>z\<rfloor> + 1 \<le> j" using f by simp
    then show ?thesis by (auto simp add: rne_def Let_def)
  qed
qed

lemma rne_lower: "of_int j \<le> z \<Longrightarrow> j \<le> rne z"
proof -
  assume "of_int j \<le> z"
  then have "j \<le> \<lfloor>z\<rfloor>" by (simp add: le_floor_iff)
  then show ?thesis by (auto simp add: rne_def Let_def)
qed

lemma rne_tie_down: 
  assumes "z \<le> of_int j + 1 / 2" and "even j"
  shows "rne z \<le> j"
proof -
  have f: "\<lfloor>z\<rfloor> \<le> j" using assms(1) by (simp add: floor_le_iff) 
  show ?thesis
  proof (cases "\<lfloor>z\<rfloor> = j")
    case True
    then have "z - of_int \<lfloor>z\<rfloor> \<le> 1 / 2" using assms(1) by simp
    then show ?thesis using True assms(2) by (auto simp add: rne_def Let_def)
  next
    case False
    then have "\<lfloor>z\<rfloor> + 1 \<le> j" using f by simp
    then show ?thesis by (auto simp add: rne_def Let_def)
  qed
qed

lemma rne_above_tie:
  assumes "of_int j + 1 / 2 < z"
  shows "j + 1 \<le> rne z"
proof -
  have f: "j \<le> \<lfloor>z\<rfloor>" using assms by (simp add: le_floor_iff)
  show ?thesis
  proof (cases "\<lfloor>z\<rfloor> = j")
    case True
    then have "1 / 2 < z - of_int \<lfloor>z\<rfloor>" using assms by simp
    then show ?thesis using True by (auto simp add: rne_def Let_def)
  next
    case False
    then have "j + 1 \<le> \<lfloor>z\<rfloor>" using f by simp
    then show ?thesis by (auto simp add: rne_def Let_def)
  qed
qed


lemma rne_nonneg: "0 \<le> z \<Longrightarrow> 0 \<le> rne z"
  using rne_lower [of 0 z] by simp

lemma bitlen_binade:
  assumes "2 ^ 144 \<le> m" and "m < 2 ^ 145"
  shows "bitlen \<lfloor>m\<rfloor> = 145"
proof -
  have lo: "(2 :: int) ^ 144 \<le> \<lfloor>m\<rfloor>" using assms(1) by (simp add: le_floor_iff)
  have hi: "\<lfloor>m\<rfloor> < (2 :: int) ^ 145" using assms(2) by (simp add: floor_less_iff)
  have "bitlen \<lfloor>m\<rfloor> \<le> 145" using hi by (simp add: bitlen_le_iff_power)
  moreover have "\<not> bitlen \<lfloor>m\<rfloor> \<le> 144" using lo by (simp add: bitlen_le_iff_power)
  ultimately show ?thesis by simp
qed

lemma round24_binade:
  assumes "2 ^ 144 \<le> m" and "m < 2 ^ 145"
  shows "round24 m = of_int (rne (m / 2 ^ 121)) * 2 ^ 121"
  using bitlen_binade [OF assms] by (simp add: round24_def)

lemma round24_below:
  assumes "0 \<le> m" and "m < 2 ^ N"
  shows "round24 m \<le> 2 ^ N"
proof -
  define k where "k = nat (bitlen \<lfloor>m\<rfloor> - 24)"
  have "\<lfloor>m\<rfloor> < (2 :: int) ^ N" using assms(2) by (simp add: floor_less_iff)
  then have "bitlen \<lfloor>m\<rfloor> \<le> int N" by (simp add: bitlen_le_iff_power)
  then have k: "k \<le> N" by (simp add: k_def)
  have split: "(2 :: real) ^ N = 2 ^ (N - k) * 2 ^ k"
    using k by (simp add: power_add [symmetric])
  have "m < 2 ^ (N - k) * 2 ^ k" using assms(2) by (simp only: split)
  then have "m / 2 ^ k \<le> 2 ^ (N - k)" by (simp add: pos_divide_le_eq)
  also have "(2 :: real) ^ (N - k) = of_int (2 ^ (N - k))" by simp
  finally have "rne (m / 2 ^ k) \<le> 2 ^ (N - k)" by (rule rne_upper)
  then have "(of_int (rne (m / 2 ^ k)) :: real) \<le> of_int (2 ^ (N - k))"
    by (simp only: of_int_le_iff)
  then have "of_int (rne (m / 2 ^ k)) * (2 :: real) ^ k \<le> 2 ^ (N - k) * 2 ^ k"
    by (simp add: mult_right_mono)
  then show ?thesis by (simp only: split round24_def k_def Let_def)
qed

lemma round24_above:
  assumes "2 ^ N \<le> m" and "23 \<le> N"
  shows "2 ^ N \<le> round24 m"
proof -
  define b where "b = bitlen \<lfloor>m\<rfloor>"
  define k where "k = nat (b - 24)"
  have lo: "(2 :: int) ^ N \<le> \<lfloor>m\<rfloor>" using assms(1) by (simp add: le_floor_iff)
  have "(0 :: int) < 2 ^ N" by simp
  then have pos: "0 < \<lfloor>m\<rfloor>" using lo by linarith
  have "\<not> b \<le> int N" using lo by (simp add: b_def bitlen_le_iff_power)
  then have b: "int N + 1 \<le> b" by simp
  then have k: "nat (b - 1) = k + 23" and kN: "N \<le> k + 23"
    using assms(2) by (simp_all add: k_def)
  have "(2 :: int) ^ (k + 23) \<le> \<lfloor>m\<rfloor>"
    using bitlen_bounds [OF pos] k by (simp add: b_def)
  then have "(of_int (2 ^ (k + 23)) :: real) \<le> of_int \<lfloor>m\<rfloor>"
    by (simp only: of_int_le_iff)
  also have "\<dots> \<le> m" by simp
  finally have "(2 :: real) ^ 23 * 2 ^ k \<le> m" by (simp add: power_add mult.commute)
  then have "(2 :: real) ^ 23 \<le> m / 2 ^ k" by (simp add: pos_le_divide_eq)
  then have "of_int (2 ^ 23) \<le> m / 2 ^ k" by simp
  then have "2 ^ 23 \<le> rne (m / 2 ^ k)" by (rule rne_lower)
  then have "(of_int (2 ^ 23) :: real) \<le> of_int (rne (m / 2 ^ k))"
    by (simp only: of_int_le_iff)
  then have A: "(2 :: real) ^ (k + 23) \<le> of_int (rne (m / 2 ^ k)) * 2 ^ k"
    by (simp add: mult_right_mono power_add mult.commute)
  have B: "(2 :: real) ^ N \<le> 2 ^ (k + 23)"
    using kN by (intro power_increasing) simp_all
  have r: "round24 m = of_int (rne (m / 2 ^ k)) * 2 ^ k"
    by (simp add: round24_def k_def b_def Let_def)
  show ?thesis unfolding r using B A by (rule order_trans)
qed

text \<open>The two sides of the tie between 13421772 and 13421773 quanta of \<open>2 ^ 121\<close>.\<close>

lemma round24_at_most_tie:
  assumes "0 \<le> m" and "m \<le> 26843545 * 2 ^ 120"
  shows "round24 m \<le> 13421772 * 2 ^ 121"
proof (cases "m < 2 ^ 144")
  case True
  have "round24 m \<le> 2 ^ 144" using assms(1) True by (rule round24_below)
  also have "(2 :: real) ^ 144 \<le> 13421772 * 2 ^ 121" by simp
  finally show ?thesis .
next
  case False
  then have lo: "2 ^ 144 \<le> m" by simp
  have "(26843545 :: real) * 2 ^ 120 < 2 ^ 145" by simp
  then have hi: "m < 2 ^ 145" using assms(2) by linarith
  have "m / 2 ^ 121 \<le> of_int 13421772 + 1 / 2" using assms(2) by simp
  then have "rne (m / 2 ^ 121) \<le> 13421772" by (rule rne_tie_down) simp
  then have "(of_int (rne (m / 2 ^ 121)) :: real) \<le> 13421772" by linarith
  then show ?thesis by (simp add: round24_binade [OF lo hi])
qed

lemma round24_above_tie:
  assumes "26843545 * 2 ^ 120 < m"
  shows "13421773 * 2 ^ 121 \<le> round24 m"
proof (cases "m < 2 ^ 145")
  case True
  have "(2 :: real) ^ 144 \<le> 26843545 * 2 ^ 120" by simp
  then have lo: "2 ^ 144 \<le> m" using assms by linarith
  have "of_int 13421772 + 1 / 2 < m / 2 ^ 121" using assms by simp
  then have "13421772 + 1 \<le> rne (m / 2 ^ 121)" by (rule rne_above_tie)
  then have "13421773 \<le> (of_int (rne (m / 2 ^ 121)) :: real)" by linarith
  then show ?thesis by (simp add: round24_binade [OF lo True])
next
  case False
  then have "2 ^ 145 \<le> m" by simp
  then have "2 ^ 145 \<le> round24 m" by (rule round24_above) simp
  moreover have "(13421773 :: real) * 2 ^ 121 \<le> 2 ^ 145" by simp
  ultimately show ?thesis by linarith
qed

lemma abs_round32: "\<bar>round32 x\<bar> = (if x = 0 then 0 else round24 (\<bar>x\<bar> * 2 ^ 149) / 2 ^ 149)"
proof -
  have "0 \<le> round24 (\<bar>x\<bar> * 2 ^ 149)"
    by (simp add: round24_def Let_def rne_nonneg)
  then show ?thesis by (simp add: round32_def abs_mult)
qed

text \<open>The binary32 just above the double 0.05 is \<open>13421773 / 2 ^ 28\<close>; a difference rounds
  to it or above exactly when it lies above the midpoint to the binary32 below.\<close>

lemma round32_above_tie:
  assumes "26843545 / 2 ^ 29 < \<bar>x\<bar>"
  shows "13421773 / 2 ^ 28 \<le> \<bar>round32 x\<bar>"
proof -
  have nz: "x \<noteq> 0" using assms by auto
  have "26843545 * 2 ^ 120 < \<bar>x\<bar> * 2 ^ 149" using assms by simp
  then have "13421773 * 2 ^ 121 \<le> round24 (\<bar>x\<bar> * 2 ^ 149)" by (rule round24_above_tie)
  then show ?thesis using nz by (simp add: abs_round32)
qed

lemma round32_at_most_tie:
  assumes "\<bar>x\<bar> \<le> 26843545 / 2 ^ 29"
  shows "\<bar>round32 x\<bar> \<le> 13421772 / 2 ^ 28"
proof (cases "x = 0")
  case True
  then show ?thesis by (simp add: abs_round32)
next
  case False
  have "\<bar>x\<bar> * 2 ^ 149 \<le> 26843545 * 2 ^ 120" using assms by simp
  then have "round24 (\<bar>x\<bar> * 2 ^ 149) \<le> 13421772 * 2 ^ 121"
    by (intro round24_at_most_tie) simp_all
  then show ?thesis using False by (simp add: abs_round32)
qed

lemma movement_test:
  "double_0_05 < \<bar>fsub32 a b\<bar> \<longleftrightarrow> 26843545 / 2 ^ 29 < \<bar>a - b\<bar>"
proof (cases "26843545 / 2 ^ 29 < \<bar>a - b\<bar>")
  case True
  have "double_0_05 < 13421773 / 2 ^ 28" by (simp add: double_0_05_def)
  then show ?thesis using True round32_above_tie [OF True] by (simp add: fsub32_def)
next
  case False
  then have le: "\<bar>a - b\<bar> \<le> 26843545 / 2 ^ 29" by simp
  have "13421772 / 2 ^ 28 < double_0_05" by (simp add: double_0_05_def)
  then show ?thesis using False round32_at_most_tie [OF le] by (simp add: fsub32_def)
qed


text \<open>Two binary32 samples whose exact difference is below 0.05 but rounds to the
  binary32 above it: the pass registers a movement.\<close>

lemma rounded_difference_moves:
  "double_0_05 < \<bar>fsub32 (16141566 / 2 ^ 28) (10879173 / 2 ^ 30)\<bar>"
  by (simp add: movement_test)

section \<open>One pass of the loop\<close>

lemmas consts_defs =
  FALL_LOW_G_def FALL_HIGH_G_def WINDOW_MS_def COOLDOWN_MS_def movement_test

lemmas pass_defs =
  loop_def track_movement_def fall_detection_def fall_event_def inactivity_alert_def

text \<open>The fall event block always leaves \<open>fallDetected\<close> cleared.\<close>

lemma loop_clears_fallDetected: "\<not> fallDetected (fst (loop a t s))"
  by (simp add: pass_defs Let_def split: prod.splits)

text \<open>A pass reports a fall exactly when the gate is open, the low-g window is open
  and the sample is above the high-g threshold.\<close>

lemma loop_fell_iff:
  "\<not> fallDetected s \<Longrightarrow>
   fst (snd (loop a t s)) \<longleftrightarrow>
     (COOLDOWN_MS < t - lastFallTime s \<and> inLowWindow s \<and> FALL_HIGH_G < a)"
  by (auto simp add: pass_defs Let_def split: prod.splits if_splits)

lemma loop_gated:
  assumes "\<not> fallDetected s" and "t - lastFallTime s \<le> COOLDOWN_MS"
  shows "\<not> fst (snd (loop a t s))"
    and "lastFallTime (fst (loop a t s)) = lastFallTime s"
    and "inLowWindow (fst (loop a t s)) = inLowWindow s"
    and "lastLowTime (fst (loop a t s)) = lastLowTime s"
  using assms by (auto simp add: pass_defs Let_def split: prod.splits if_splits)

lemma loop_after_fall:
  assumes "fst (snd (loop a t s))"
  shows "lastFallTime (fst (loop a t s)) = t"
    and "lastMovementTime (fst (loop a t s)) = t"
    and "lastBuzzToggle (fst (loop a t s)) = t"
    and "inactivityTriggered (fst (loop a t s))"
    and "\<not> snd (snd (loop a t s))"
  using assms by (auto simp add: pass_defs Let_def split: prod.splits if_splits)

lemma loop_after_fall_window:
  assumes "\<not> fallDetected s" and "fst (snd (loop a t s))"
  shows "\<not> inLowWindow (fst (loop a t s))"
  using assms by (auto simp add: pass_defs Let_def split: prod.splits if_splits)

lemma loop_no_fall_keeps_lastFallTime:
  "\<not> fst (snd (loop a t s)) \<Longrightarrow> lastFallTime (fst (loop a t s)) = lastFallTime s"
  by (auto simp add: pass_defs Let_def split: prod.splits if_splits)

lemma loop_window_opens:
  "inLowWindow (fst (loop a t s)) \<Longrightarrow> inLowWindow s \<or> a < FALL_LOW_G"
  by (auto simp add: pass_defs Let_def split: prod.splits if_splits)


section \<open>Traces\<close>

lemma length_falls: "length (falls s xs) = length xs"
  by (induction xs arbitrary: s) simp_all

lemma length_alerts: "length (alerts s xs) = length xs"
  by (induction xs arbitrary: s) simp_all

lemma exec_append: "exec s (xs @ ys) = exec (exec s xs) ys"
  by (induction xs arbitrary: s) simp_all

lemma falls_append: "falls s (xs @ ys) = falls s xs @ falls (exec s xs) ys"
  by (induction xs arbitrary: s) simp_all

lemma alerts_append: "alerts s (xs @ ys) = alerts s xs @ alerts (exec s xs) ys"
  by (induction xs arbitrary: s) simp_all

lemma falls_nth:
  "j < length xs \<Longrightarrow>
   falls s xs ! j = fst (snd (loop (fst (xs ! j)) (snd (xs ! j)) (exec s (take j xs))))"
proof (induction xs arbitrary: s j)
  case Nil
  then show ?case by simp
next
  case (Cons x xs)
  then show ?case by (cases j) simp_all
qed

lemma exec_take_Suc:
  "j < length xs \<Longrightarrow>
   exec s (take (Suc j) xs) = fst (loop (fst (xs ! j)) (snd (xs ! j)) (exec s (take j xs)))"
  by (simp add: take_Suc_conv_app_nth exec_append)

lemma exec_keeps_fallDetected_clear: "\<not> fallDetected s \<Longrightarrow> \<not> fallDetected (exec s xs)"
  by (induction xs arbitrary: s) (simp_all add: loop_clears_fallDetected)

text \<open>A stretch of passes that all see the gate closed.\<close>

lemma gated_stretch:
  assumes "\<not> fallDetected s" and "\<forall>x\<in>set ys. snd x - lastFallTime s \<le> COOLDOWN_MS"
  shows "lastFallTime (exec s ys) = lastFallTime s \<and> inLowWindow (exec s ys) = inLowWindow s
         \<and> True \<notin> set (falls s ys)"
  using assms
proof (induction ys arbitrary: s)
  case Nil
  then show ?case by simp
next
  case (Cons y ys)
  let ?s' = "fst (loop (fst y) (snd y) s)"
  have g: "snd y - lastFallTime s \<le> COOLDOWN_MS" using Cons.prems by simp
  have a: "\<not> fallDetected ?s'" by (rule loop_clears_fallDetected)
  have b: "lastFallTime ?s' = lastFallTime s" "inLowWindow ?s' = inLowWindow s"
    "\<not> fst (snd (loop (fst y) (snd y) s))"
    using loop_gated [OF Cons.prems(1) g] by simp_all
  have "\<forall>x\<in>set ys. snd x - lastFallTime ?s' \<le> COOLDOWN_MS"
    using Cons.prems(2) b(1) by simp
  from Cons.IH [OF a this] b show ?case by simp
qed

lemma no_dip_stretch:
  assumes "\<not> fallDetected s" and "\<not> inLowWindow s" and "\<forall>x\<in>set ys. \<not> fst x < FALL_LOW_G"
  shows "\<not> inLowWindow (exec s ys) \<and> True \<notin> set (falls s ys)"
  using assms
proof (induction ys arbitrary: s)
  case Nil
  then show ?case by simp
next
  case (Cons y ys)
  let ?s' = "fst (loop (fst y) (snd y) s)"
  have a: "\<not> fallDetected ?s'" by (rule loop_clears_fallDetected)
  have b: "\<not> inLowWindow ?s'"
    using loop_window_opens [of "fst y" "snd y" s] Cons.prems by auto
  have c: "\<not> fst (snd (loop (fst y) (snd y) s))"
    using loop_fell_iff [OF Cons.prems(1)] Cons.prems(2) by simp
  have "\<forall>x\<in>set ys. \<not> fst x < FALL_LOW_G" using Cons.prems(3) by simp
  from Cons.IH [OF a b this] c show ?case by simp
qed

lemma word_diff_le:
  fixes a b c :: "32 word"
  assumes "unat a \<le> unat b" and "unat b \<le> unat a + unat c"
  shows "b - a \<le> c"
proof -
  have "a \<le> b" using assms(1) by (simp add: word_le_nat_alt)
  then have "unat (b - a) = unat b - unat a" by (rule unat_sub)
  then show ?thesis using assms by (simp add: word_le_nat_alt)
qed

lemma word_diff_gt:
  fixes a b c :: "32 word"
  assumes "unat a + unat c < unat b"
  shows "c < b - a"
proof -
  have "a \<le> b" using assms(1) by (simp add: word_le_nat_alt)
  then have "unat (b - a) = unat b - unat a" by (rule unat_sub)
  then show ?thesis using assms by (simp add: word_less_nat_alt)
qed

lemma set_between:
  assumes "x \<in> set (drop (Suc i) (take j xs))"
  shows "\<exists>k. i < k \<and> k < j \<and> k < length xs \<and> x = xs ! k"
proof -
  from assms obtain n where n: "n < length (drop (Suc i) (take j xs))"
    and x: "x = drop (Suc i) (take j xs) ! n"
    by (auto simp: in_set_conv_nth)
  have "Suc i + n < j" and "Suc i + n < length xs" using n by simp_all
  moreover have "drop (Suc i) (take j xs) ! n = take j xs ! (Suc i + n)"
    using n by (intro nth_drop) (auto simp: min_def split: if_splits)
  then have "x = xs ! (Suc i + n)" using x \<open>Suc i + n < j\<close> by simp
  ultimately show ?thesis by (intro exI [of _ "Suc i + n"]) simp
qed

lemma take_split:
  assumes "i < j" 
  shows "take j xs = take (Suc i) xs @ drop (Suc i) (take j xs)"
proof -
  have "take j xs = take (Suc i) (take j xs) @ drop (Suc i) (take j xs)"
    by (simp only: append_take_drop_id)
  moreover have "take (Suc i) (take j xs) = take (Suc i) xs"
    using assms by (simp add: min_def)
  ultimately show ?thesis by simp
qed

lemma state_after_fall:
  assumes nf: "\<not> fallDetected s" and ij: "i < j" and j: "j < length xs"
    and fi: "falls s xs ! i"
  shows "exec s (take j xs) = exec (exec s (take (Suc i) xs)) (drop (Suc i) (take j xs))"
    and "lastFallTime (exec s (take (Suc i) xs)) = snd (xs ! i)"
    and "\<not> inLowWindow (exec s (take (Suc i) xs))"
    and "\<not> fallDetected (exec s (take (Suc i) xs))"
proof -
  have i: "i < length xs" using ij j by simp
  let ?si = "exec s (take i xs)"
  have fell: "fst (snd (loop (fst (xs ! i)) (snd (xs ! i)) ?si))"
    using fi falls_nth [OF i, of s] by simp
  have clear: "\<not> fallDetected ?si" using nf by (rule exec_keeps_fallDetected_clear)
  show "exec s (take j xs) = exec (exec s (take (Suc i) xs)) (drop (Suc i) (take j xs))"
    using take_split [OF ij, of xs] exec_append by metis
  show "lastFallTime (exec s (take (Suc i) xs)) = snd (xs ! i)"
    using loop_after_fall(1) [OF fell] by (simp add: exec_take_Suc [OF i])
  show "\<not> inLowWindow (exec s (take (Suc i) xs))"
    using loop_after_fall_window [OF clear fell] by (simp add: exec_take_Suc [OF i])
  show "\<not> fallDetected (exec s (take (Suc i) xs))"
    using nf by (rule exec_keeps_fallDetected_clear)
qed

lemma no_fall_in_cooldown:
  assumes nf: "\<not> fallDetected s"
    and mono: "sorted (map (unat \<circ> snd) xs)"
    and ij: "i < j" and j: "j < length xs"
    and fi: "falls s xs ! i"
    and near: "unat (snd (xs ! j)) \<le> unat (snd (xs ! i)) + unat COOLDOWN_MS"
  shows "\<not> falls s xs ! j"
proof -
  let ?T = "snd (xs ! i)"
  let ?s1 = "exec s (take (Suc i) xs)"
  let ?mid = "drop (Suc i) (take j xs)"
  note st = state_after_fall [OF nf ij j fi]
  have le: "unat (snd (xs ! k)) \<le> unat (snd (xs ! l))" if "k \<le> l" "l < length xs" for k l
    using sorted_nth_mono [OF mono, of k l] that by simp
  have within: "snd (xs ! k) - ?T \<le> COOLDOWN_MS" if "i < k" "k \<le> j" for k
  proof (rule word_diff_le)
    show "unat ?T \<le> unat (snd (xs ! k))" using le [of i k] that j by simp
    have "unat (snd (xs ! k)) \<le> unat (snd (xs ! j))" using le [of k j] that j by simp
    then show "unat (snd (xs ! k)) \<le> unat ?T + unat COOLDOWN_MS" using near by simp
  qed
  have "\<forall>x\<in>set ?mid. snd x - lastFallTime ?s1 \<le> COOLDOWN_MS"
  proof
    fix x assume "x \<in> set ?mid"
    from set_between [OF this] obtain k where "i < k" "k < j" "x = xs ! k" by blast
    then show "snd x - lastFallTime ?s1 \<le> COOLDOWN_MS"
      using within [of k] st(2) by simp
  qed
  from gated_stretch [OF st(4) this]
  have "lastFallTime (exec s (take j xs)) = ?T" using st(1,2) by simp
  moreover have "\<not> fallDetected (exec s (take j xs))"
    using nf by (rule exec_keeps_fallDetected_clear)
  ultimately have "\<not> fst (snd (loop (fst (xs ! j)) (snd (xs ! j)) (exec s (take j xs))))"
    using loop_gated(1) within [of j] ij by simp
  then show ?thesis using falls_nth [OF j, of s] by simp
qed

lemma dip_between_falls:
  assumes nf: "\<not> fallDetected s" and ij: "i < j" and j: "j < length xs"
    and fi: "falls s xs ! i" and fj: "falls s xs ! j"
  shows "\<exists>k. i < k \<and> k < j \<and> fst (xs ! k) < FALL_LOW_G"
proof (rule ccontr)
  assume none: "\<not> (\<exists>k. i < k \<and> k < j \<and> fst (xs ! k) < FALL_LOW_G)"
  let ?s1 = "exec s (take (Suc i) xs)"
  let ?mid = "drop (Suc i) (take j xs)"
  note st = state_after_fall [OF nf ij j fi]
  have "\<forall>x\<in>set ?mid. \<not> fst x < FALL_LOW_G"
  proof
    fix x assume "x \<in> set ?mid"
    from set_between [OF this] obtain k where "i < k" "k < j" "x = xs ! k" by blast
    then show "\<not> fst x < FALL_LOW_G" using none by blast
  qed
  from no_dip_stretch [OF st(4) st(3) this]
  have "\<not> inLowWindow (exec s (take j xs))" using st(1) by simp
  moreover have "\<not> fallDetected (exec s (take j xs))"
    using nf by (rule exec_keeps_fallDetected_clear)
  ultimately have "\<not> fst (snd (loop (fst (xs ! j)) (snd (xs ! j)) (exec s (take j xs))))"
    using loop_fell_iff by simp
  then show False using fj falls_nth [OF j, of s] by simp
qed

lemma word_add_gt:
  fixes d c k :: "32 word"
  assumes "unat c < unat d" and "unat d + unat k < 2 ^ 32"
  shows "c < d + k"
proof -
  have "unat (d + k) = unat d + unat k"
    using assms(2) by (simp add: unat_add_lem [THEN iffD1])
  then show ?thesis using assms(1) by (simp add: word_less_nat_alt)
qed

lemma falls_two_impacts: "falls boot two_impacts = [False, True, False, False, False]"
  by (simp add: two_impacts_def pass_defs consts_defs boot_def)

lemma falls_two_falls: "falls boot two_falls = [False, True, False, True]"
  by (simp add: two_falls_def pass_defs consts_defs boot_def)

section \<open>The low-g window\<close>

lemma loop_dip:
  assumes "\<not> fallDetected s" and "\<not> inLowWindow s" and "a < FALL_LOW_G"
    and "COOLDOWN_MS < t - lastFallTime s"
  shows "inLowWindow (fst (loop a t s))" and "lastLowTime (fst (loop a t s)) = t"
    and "lastFallTime (fst (loop a t s)) = lastFallTime s"
    and "\<not> fst (snd (loop a t s))"
  using assms by (auto simp add: pass_defs Let_def split: prod.splits if_splits)

lemma loop_in_window:
  assumes "\<not> fallDetected s" and "inLowWindow s" and "a \<le> FALL_HIGH_G"
    and "COOLDOWN_MS < t - lastFallTime s" and "t - lastLowTime s \<le> WINDOW_MS"
  shows "inLowWindow (fst (loop a t s))" and "lastLowTime (fst (loop a t s)) = lastLowTime s"
    and "lastFallTime (fst (loop a t s)) = lastFallTime s"
    and "\<not> fst (snd (loop a t s))"
  using assms by (auto simp add: pass_defs Let_def split: prod.splits if_splits)

lemma loop_window_expires:
  assumes "\<not> fallDetected s" and "inLowWindow s" and "a \<le> FALL_HIGH_G"
    and "COOLDOWN_MS < t - lastFallTime s" and "WINDOW_MS < t - lastLowTime s"
  shows "\<not> inLowWindow (fst (loop a t s))" and "\<not> fst (snd (loop a t s))"
  using assms by (auto simp add: pass_defs Let_def split: prod.splits if_splits)

lemma in_window_stretch:
  assumes "\<not> fallDetected s" and "inLowWindow s"
    and "\<forall>x\<in>set ys. fst x \<le> FALL_HIGH_G \<and> COOLDOWN_MS < snd x - lastFallTime s
           \<and> snd x - lastLowTime s \<le> WINDOW_MS"
  shows "inLowWindow (exec s ys) \<and> lastLowTime (exec s ys) = lastLowTime s
         \<and> lastFallTime (exec s ys) = lastFallTime s \<and> True \<notin> set (falls s ys)"
  using assms
proof (induction ys arbitrary: s)
  case Nil
  then show ?case by simp
next
  case (Cons y ys)
  let ?s' = "fst (loop (fst y) (snd y) s)"
  have y: "fst y \<le> FALL_HIGH_G" "COOLDOWN_MS < snd y - lastFallTime s"
    "snd y - lastLowTime s \<le> WINDOW_MS"
    using Cons.prems(3) by simp_all
  note step = loop_in_window [OF Cons.prems(1,2) y]
  have a: "\<not> fallDetected ?s'" by (rule loop_clears_fallDetected)
  have "\<forall>x\<in>set ys. fst x \<le> FALL_HIGH_G \<and> COOLDOWN_MS < snd x - lastFallTime ?s'
           \<and> snd x - lastLowTime ?s' \<le> WINDOW_MS"
    using Cons.prems(3) step(2,3) by simp
  from Cons.IH [OF a step(1) this] step show ?case by simp
qed

section \<open>Stillness and movement after a fall\<close>






section \<open>The claims\<close>

subsection \<open>Scenario A\<close>

text \<open>
  Claim C1, as stated, fails: on the trace of Scenario A (samples at 0, 50, 100 and
  150 ms after boot) no pass reports a fall, the one at 150 ms included, because
  \<open>lastFallTime\<close> starts at 0 and the gate \<open>now - lastFallTime > COOLDOWN_MS\<close> stays
  closed for the first 1000 ms.
\<close>

theorem scenario_A_counterexample: "falls boot scenario_A = [False, False, False, False]"
  by (simp add: scenario_A_def scenario_A_at_def pass_defs consts_defs boot_def)

text \<open>
  Claim C1, amended: when the trace of Scenario A starts more than 1000 ms after boot
  (and the clock does not wrap during it), the fourth pass and no earlier one reports
  the fall. The window was opened by the 0.2 g sample at \<open>d + 50\<close>, so the time from
  the entry into the low-g window to the 3.0 g trigger is 100 ms, and the fall is
  recorded at \<open>d + 150\<close>. The loop keeps no record of the two magnitudes.
\<close>

theorem scenario_A_after_boot_cooldown:
  assumes "unat COOLDOWN_MS < unat d" and "unat d + 150 < 2 ^ 32"
  shows "falls boot (scenario_A_at d) = [False, False, False, True]
         \<and> lastLowTime (exec boot (take 3 (scenario_A_at d))) = d + 50
         \<and> (d + 150) - lastLowTime (exec boot (take 3 (scenario_A_at d))) = 100
         \<and> lastFallTime (exec boot (scenario_A_at d)) = d + 150"
proof -
  have c: "unat (1000 :: 32 word) < unat d" using assms(1) by (simp add: COOLDOWN_MS_def)
  have g0: "1000 < d" using c by (simp add: word_less_nat_alt)
  have g1: "1000 < d + 50" using c assms(2) by (intro word_add_gt) simp_all
  have g2: "1000 < d + 100" using c assms(2) by (intro word_add_gt) simp_all
  have g3: "1000 < d + 150" using c assms(2) by (intro word_add_gt) simp_all
  have t3: "take 3 (scenario_A_at d) = [(1.0, d), (0.2, d + 50), (0.25, d + 100)]"
    by (simp add: scenario_A_at_def)
  show ?thesis
    unfolding t3 unfolding scenario_A_at_def
    by (simp add: pass_defs consts_defs boot_def g0 g1 g2 g3)
qed

theorem scenario_A_after_boot_cooldown_witness:
  "unat COOLDOWN_MS < unat (2000 :: 32 word) \<and> unat (2000 :: 32 word) + 150 < 2 ^ 32
   \<and> falls boot (scenario_A_at 2000) = [False, False, False, True]
   \<and> lastLowTime (exec boot (take 3 (scenario_A_at 2000))) = 2050
   \<and> 2150 - lastLowTime (exec boot (take 3 (scenario_A_at 2000))) = 100
   \<and> lastFallTime (exec boot (scenario_A_at 2000)) = 2150"
proof -
  have a: "unat COOLDOWN_MS < unat (2000 :: 32 word)" by (simp add: COOLDOWN_MS_def)
  have b: "unat (2000 :: 32 word) + 150 < 2 ^ 32" by simp
  show ?thesis using a b scenario_A_after_boot_cooldown [OF a b] by simp
qed

subsection \<open>Cooldown enforcement\<close>

text \<open>
  Claim C2: in a trace whose timestamps never decrease, once a pass at time \<open>T\<close> has
  reported a fall, no later pass with a timestamp of at most \<open>T + COOLDOWN_MS\<close>
  reports a fall, whatever the magnitudes are.
\<close>

theorem cooldown_enforcement:
  assumes "sorted (map (unat \<circ> snd) xs)"
    and "i < j" and "j < length xs"
    and "falls boot xs ! i"
    and "unat (snd (xs ! j)) \<le> unat (snd (xs ! i)) + unat COOLDOWN_MS"
  shows "\<not> falls boot xs ! j"
  using no_fall_in_cooldown [of boot xs i j] assms by (simp add: boot_def)

theorem cooldown_enforcement_witness:
  "sorted (map (unat \<circ> snd) two_impacts) \<and> (1::nat) < 3 \<and> 3 < length two_impacts
   \<and> falls boot two_impacts ! 1
   \<and> unat (snd (two_impacts ! 3)) \<le> unat (snd (two_impacts ! 1)) + unat COOLDOWN_MS
   \<and> \<not> falls boot two_impacts ! 3"
proof -
  have a: "sorted (map (unat \<circ> snd) two_impacts)" by (simp add: two_impacts_def)
  have b: "(1::nat) < 3" and c: "3 < length two_impacts" by (simp_all add: two_impacts_def)
  have d: "falls boot two_impacts ! 1" by (simp add: falls_two_impacts)
  have e: "unat (snd (two_impacts ! 3)) \<le> unat (snd (two_impacts ! 1)) + unat COOLDOWN_MS"
    by (simp add: two_impacts_def COOLDOWN_MS_def)
  show ?thesis using a b c d e cooldown_enforcement [OF a b c d e] by simp
qed

subsection \<open>Expiry of the detection window\<close>

text \<open>
  Claim C3, as stated, fails: the pass tests the high-g threshold before it tests the
  age of the window. In \<open>late_impact\<close> the dip opens the window at 2050 ms, no sample
  is high before 2350 ms (the end of the 300 ms window), and the 3.0 g sample at 2400 ms
  is reported as a fall for that dip.
\<close>

theorem window_expiry_counterexample:
  "inLowWindow (exec boot (take 2 late_impact))
   \<and> lastLowTime (exec boot (take 2 late_impact)) = 2050
   \<and> falls boot late_impact = [False, False, False, False, True]"
  by (simp add: late_impact_def pass_defs consts_defs boot_def)

text \<open>
  Claim C3, amended: a dip at \<open>T\<close> opens the window (the gate being open and the clock
  not wrapping). If no sample is high while the window is young, and the first sample
  later than \<open>T + WINDOW_MS\<close> is not high either, then that sample closes the window,
  and no fall is reported for the dip: none up to that sample, and none afterwards
  until a new dip.
\<close>

theorem window_expiry:
  assumes "\<not> fallDetected s" and "\<not> inLowWindow s"
    and "a0 < FALL_LOW_G"
    and "unat (lastFallTime s) + unat COOLDOWN_MS < unat T"
    and "\<forall>x\<in>set ys. unat T \<le> unat (snd x) \<and> unat (snd x) \<le> unat T + unat WINDOW_MS
           \<and> fst x \<le> FALL_HIGH_G"
    and "unat T + unat WINDOW_MS < unat t" and "a \<le> FALL_HIGH_G"
    and "\<forall>x\<in>set zs. FALL_LOW_G \<le> fst x"
  shows "inLowWindow (exec s [(a0, T)]) \<and> lastLowTime (exec s [(a0, T)]) = T
         \<and> True \<notin> set (falls s ((a0, T) # ys @ (a, t) # zs))
         \<and> \<not> inLowWindow (exec s ((a0, T) # ys @ [(a, t)]))"
proof -
  let ?s1 = "fst (loop a0 T s)"
  let ?s2 = "exec ?s1 ys"
  let ?s3 = "fst (loop a t ?s2)"
  have open_T: "COOLDOWN_MS < T - lastFallTime s" using assms(4) by (rule word_diff_gt)
  note dip = loop_dip [OF assms(1,2,3) open_T]
  have c1: "\<not> fallDetected ?s1" by (rule loop_clears_fallDetected)
  have "\<forall>x\<in>set ys. fst x \<le> FALL_HIGH_G \<and> COOLDOWN_MS < snd x - lastFallTime ?s1
           \<and> snd x - lastLowTime ?s1 \<le> WINDOW_MS"
  proof
    fix x assume "x \<in> set ys"
    then have x: "unat T \<le> unat (snd x)" "unat (snd x) \<le> unat T + unat WINDOW_MS"
      "fst x \<le> FALL_HIGH_G" using assms(5) by simp_all
    have "COOLDOWN_MS < snd x - lastFallTime s"
      using assms(4) x(1) by (intro word_diff_gt) simp
    moreover have "snd x - T \<le> WINDOW_MS" using x(1,2) by (rule word_diff_le)
    ultimately show "fst x \<le> FALL_HIGH_G \<and> COOLDOWN_MS < snd x - lastFallTime ?s1
           \<and> snd x - lastLowTime ?s1 \<le> WINDOW_MS"
      using x(3) dip(2,3) by simp
  qed
  note mid = in_window_stretch [OF c1 dip(1) this]
  have c2: "\<not> fallDetected ?s2" using c1 by (rule exec_keeps_fallDetected_clear)
  have open_t: "COOLDOWN_MS < t - lastFallTime ?s2"
    using assms(4,6) mid dip(3) by (intro word_diff_gt) simp
  have late: "WINDOW_MS < t - lastLowTime ?s2"
    using assms(6) mid dip(2) by (intro word_diff_gt) simp
  note expire = loop_window_expires [OF c2 _ assms(7) open_t late]
  have w2: "inLowWindow ?s2" using mid by simp
  have c3: "\<not> fallDetected ?s3" by (rule loop_clears_fallDetected)
  have "\<forall>x\<in>set zs. \<not> fst x < FALL_LOW_G" using assms(8) by (simp add: not_less)
  note rest = no_dip_stretch [OF c3 expire(1) [OF w2] this]
  have "True \<notin> set (falls s ((a0, T) # ys @ (a, t) # zs))"
    using dip(4) mid expire(2) [OF w2] rest by (simp add: falls_append)
  moreover have "\<not> inLowWindow (exec s ((a0, T) # ys @ [(a, t)]))"
    using expire(1) [OF w2] by (simp add: exec_append)
  ultimately show ?thesis using dip(1,2) by simp
qed

theorem window_expiry_witness:
  "\<not> fallDetected boot \<and> \<not> inLowWindow boot \<and> 0.2 < FALL_LOW_G
   \<and> unat (lastFallTime boot) + unat COOLDOWN_MS < unat (2050 :: 32 word)
   \<and> unat (2050 :: 32 word) + unat WINDOW_MS < unat (2400 :: 32 word) \<and> 1.0 \<le> FALL_HIGH_G
   \<and> inLowWindow (exec boot [(0.2, 2050)]) \<and> lastLowTime (exec boot [(0.2, 2050)]) = 2050
   \<and> True \<notin> set (falls boot ((0.2, 2050) # [(1.0, 2100), (1.0, 2350)] @ (1.0, 2400) # [(3.0, 2450)]))
   \<and> \<not> inLowWindow (exec boot ((0.2, 2050) # [(1.0, 2100), (1.0, 2350)] @ [(1.0, 2400)]))"
proof -
  have a: "\<not> fallDetected boot" and b: "\<not> inLowWindow boot" by (simp_all add: boot_def)
  have c: "0.2 < FALL_LOW_G" by (simp add: FALL_LOW_G_def)
  have d: "unat (lastFallTime boot) + unat COOLDOWN_MS < unat (2050 :: 32 word)"
    by (simp add: boot_def COOLDOWN_MS_def)
  have e: "\<forall>x\<in>set [(1.0, 2100), (1.0, 2350 :: 32 word)].
         unat (2050 :: 32 word) \<le> unat (snd x) \<and> unat (snd x) \<le> unat (2050 :: 32 word) + unat WINDOW_MS
         \<and> fst x \<le> FALL_HIGH_G"
    by (simp add: WINDOW_MS_def FALL_HIGH_G_def)
  have f: "unat (2050 :: 32 word) + unat WINDOW_MS < unat (2400 :: 32 word)"
    by (simp add: WINDOW_MS_def)
  have g: "1.0 \<le> FALL_HIGH_G" by (simp add: FALL_HIGH_G_def)
  have h: "\<forall>x\<in>set [(3.0, 2450 :: 32 word)]. FALL_LOW_G \<le> fst x" by (simp add: FALL_LOW_G_def)
  from window_expiry [OF a b c d e f g h] a b c d f g show ?thesis by (intro conjI) simp_all
qed

subsection \<open>Edge triggering\<close>

text \<open>
  Claim C4: two passes of one trace that both report a fall are separated by a sample
  below the low-g threshold (a new dip), so a low-then-high transition is reported
  once and a reading that stays high is reported once; and when the timestamps never
  decrease, the two passes are more than \<open>COOLDOWN_MS\<close> apart, so no interval of that
  length holds two reports.
\<close>

theorem edge_triggered:
  assumes "i < j" and "j < length xs"
    and "falls boot xs ! i" and "falls boot xs ! j"
  shows "(\<exists>k. i < k \<and> k < j \<and> fst (xs ! k) < FALL_LOW_G)
         \<and> (sorted (map (unat \<circ> snd) xs) \<longrightarrow>
              unat (snd (xs ! i)) + unat COOLDOWN_MS < unat (snd (xs ! j)))"
proof (intro conjI impI)
  have nf: "\<not> fallDetected boot" by (simp add: boot_def)
  show "\<exists>k. i < k \<and> k < j \<and> fst (xs ! k) < FALL_LOW_G"
    using dip_between_falls [OF nf assms] .
  show "unat (snd (xs ! i)) + unat COOLDOWN_MS < unat (snd (xs ! j))"
    if "sorted (map (unat \<circ> snd) xs)"
    using no_fall_in_cooldown [OF nf that assms(1,2,3)] assms(4) by (meson not_le_imp_less)
qed

theorem edge_triggered_witness:
  "(1::nat) < 3 \<and> 3 < length two_falls
   \<and> falls boot two_falls ! 1 \<and> falls boot two_falls ! 3
   \<and> sorted (map (unat \<circ> snd) two_falls)
   \<and> (\<exists>k. 1 < k \<and> k < 3 \<and> fst (two_falls ! k) < FALL_LOW_G)
   \<and> unat (snd (two_falls ! 1)) + unat COOLDOWN_MS < unat (snd (two_falls ! 3))"
proof -
  have a: "sorted (map (unat \<circ> snd) two_falls)" by (simp add: two_falls_def)
  have b: "(1::nat) < 3" and c: "3 < length two_falls" by (simp_all add: two_falls_def)
  have d: "falls boot two_falls ! 1" and e: "falls boot two_falls ! 3"
    by (simp_all add: falls_two_falls)
  show ?thesis using a b c d e edge_triggered [OF b c d e] by blast
qed

subsection \<open>Inactivity escalation\<close>




subsection \<open>Movement cancels inactivity\<close>




subsection \<open>The frozen detection during cooldown\<close>

text \<open>
  Claim C7: a pass that finds the gate closed leaves the low-g window flag, the
  low-g start time, the last-fall time and the fall-detected flag as they were, and
  reports no fall; it is exactly the movement tracking followed by the inactivity
  alert.
\<close>

theorem cooldown_freezes_detection:
  assumes "\<not> fallDetected s" and "now - lastFallTime s \<le> COOLDOWN_MS"
  shows "inLowWindow (fst (loop a now s)) = inLowWindow s
         \<and> lastLowTime (fst (loop a now s)) = lastLowTime s
         \<and> lastFallTime (fst (loop a now s)) = lastFallTime s
         \<and> fallDetected (fst (loop a now s)) = fallDetected s
         \<and> \<not> fst (snd (loop a now s))
         \<and> loop a now s =
             (fst (inactivity_alert now (track_movement a now s)), False,
              snd (inactivity_alert now (track_movement a now s)))"
proof -
  have skip: "fall_detection a now (track_movement a now s) = track_movement a now s"
    using assms(2) by (simp add: fall_detection_def track_movement_def Let_def)
  have clear: "\<not> fallDetected (track_movement a now s)"
    using assms(1) by (simp add: track_movement_def Let_def)
  have eq: "loop a now s =
             (fst (inactivity_alert now (track_movement a now s)), False,
              snd (inactivity_alert now (track_movement a now s)))"
    using clear by (simp add: loop_def skip fall_event_def Let_def split: prod.splits)
  have "fallDetected (fst (loop a now s)) = fallDetected s"
    using assms(1) loop_clears_fallDetected [of a now s] by simp
  then show ?thesis using loop_gated [OF assms, of a] eq by simp
qed

theorem cooldown_freezes_detection_witness:
  "\<not> fallDetected (exec boot (scenario_A_at 2000))
   \<and> 2200 - lastFallTime (exec boot (scenario_A_at 2000)) \<le> COOLDOWN_MS
   \<and> loop 0.1 2200 (exec boot (scenario_A_at 2000)) =
       (\<lparr>lastLowTime = 2050, lastFallTime = 2150, lastMovementTime = 2200,
         lastBuzzToggle = 2150, inLowWindow = False, fallDetected = False,
         inactivityTriggered = False, lastAcc = 0.1\<rparr>, False, False)"
proof -
  let ?s = "exec boot (scenario_A_at 2000)"
  have s: "?s = \<lparr>lastLowTime = 2050, lastFallTime = 2150, lastMovementTime = 2150,
    lastBuzzToggle = 2150, inLowWindow = False, fallDetected = False,
    inactivityTriggered = True, lastAcc = 3\<rparr>"
    by (simp add: scenario_A_at_def pass_defs consts_defs boot_def)
  have a: "\<not> fallDetected ?s" by (simp add: s)
  have b: "2200 - lastFallTime ?s \<le> COOLDOWN_MS" by (simp add: s COOLDOWN_MS_def)
  have "loop 0.1 2200 ?s =
             (fst (inactivity_alert 2200 (track_movement 0.1 2200 ?s)), False,
              snd (inactivity_alert 2200 (track_movement 0.1 2200 ?s)))"
    using cooldown_freezes_detection [OF a b, of "0.1"] by (elim conjE)
  also have "\<dots> = (\<lparr>lastLowTime = 2050, lastFallTime = 2150, lastMovementTime = 2200,
         lastBuzzToggle = 2150, inLowWindow = False, fallDetected = False,
         inactivityTriggered = False, lastAcc = 0.1\<rparr>, False, False)"
    by (simp add: s inactivity_alert_def track_movement_def movement_test)
  finally show ?thesis using a b by (intro conjI)
qed

subsection \<open>Scenario D\<close>

text \<open>
  Claim C8 (Scenario D): after the trace of Scenario A, a 3.0 g sample at 1500 ms is
  not reported as a fall. The same holds when the whole trace is moved past the first
  second, where the fall of Scenario A is reported: the spike finds no open low-g
  window.
\<close>

theorem scenario_D_no_second_fall:
  "falls boot (scenario_A @ [(3.0, 1500)]) = [False, False, False, False, False]
   \<and> falls boot (scenario_A_at 2000 @ [(3.0, 3500)]) = [False, False, False, True, False]"
  by (simp add: scenario_A_def scenario_A_at_def pass_defs consts_defs boot_def)

subsection \<open>Reset\<close>

text \<open>
  Claim C9: resetting twice gives the same detector as resetting once; after a reset
  the state is Normal, the last fall is the empty record, the detector is not in
  cooldown, and the history buffer and the inactivity tracker are cleared.
\<close>

theorem reset_idempotent:
  "reset (reset d) = reset d
   \<and> getCurrentState (reset d) = FALL_STATE_NORMAL
   \<and> getLastFall (reset d) = no_fall
   \<and> \<not> isInCooldown (reset d)
   \<and> accelHistory (reset d) = replicate 50 0
   \<and> accelHistoryIndex (reset d) = 0
   \<and> accelHistoryCount (reset d) = 0
   \<and> lastMovementTime_d (reset d) = 0
   \<and> \<not> triggered (reset d)
   \<and> lastAlertTimestamp (reset d) = 0"
  by (simp add: reset_def getCurrentState_def getLastFall_def isInCooldown_def)

subsection \<open>The first second after boot\<close>

text \<open>
  Claim C10: \<open>lastFallTime\<close> starts at 0, so a pass whose timestamp, like those of all
  passes before it, is at most \<open>COOLDOWN_MS\<close> never reports a fall.
\<close>

theorem blind_after_boot:
  assumes "j < length xs" and "\<forall>k\<le>j. snd (xs ! k) \<le> COOLDOWN_MS"
  shows "\<not> falls boot xs ! j"
proof -
  have nf: "\<not> fallDetected boot" and z: "lastFallTime boot = 0" by (simp_all add: boot_def)
  have "\<forall>x\<in>set (take j xs). snd x - lastFallTime boot \<le> COOLDOWN_MS"
  proof
    fix x assume "x \<in> set (take j xs)"
    then obtain k where "k < j" "x = xs ! k" using assms(1) by (auto simp: in_set_conv_nth)
    then show "snd x - lastFallTime boot \<le> COOLDOWN_MS" using assms(2) z by simp
  qed
  from gated_stretch [OF nf this]
  have "lastFallTime (exec boot (take j xs)) = 0" using z by simp
  moreover have "\<not> fallDetected (exec boot (take j xs))"
    using nf by (rule exec_keeps_fallDetected_clear)
  ultimately have "\<not> fst (snd (loop (fst (xs ! j)) (snd (xs ! j)) (exec boot (take j xs))))"
    using loop_gated(1) assms(2) by simp
  then show ?thesis using falls_nth [OF assms(1), of boot] by simp
qed

theorem blind_after_boot_witness:
  "(3::nat) < length scenario_A \<and> snd (scenario_A ! 3) \<le> COOLDOWN_MS
   \<and> \<not> falls boot scenario_A ! 3"
proof -
  have a: "(3::nat) < length scenario_A" by (simp add: scenario_A_def scenario_A_at_def)
  have "snd (scenario_A ! k) \<le> COOLDOWN_MS" if "k \<le> 3" for k
  proof -
    have "k = 0 \<or> k = 1 \<or> k = 2 \<or> k = 3" using that by arith
    then show ?thesis
      by (auto simp add: scenario_A_def scenario_A_at_def COOLDOWN_MS_def)
  qed
  then have b: "\<forall>k\<le>3. snd (scenario_A ! k) \<le> COOLDOWN_MS" by blast
  show ?thesis using a b blind_after_boot [OF a b] by blast
qed

end
